theory Spec2Isabelle
  imports Main "HOL-Library.AList" "HOL-Library.Char_ord" "HOL-Library.List_Lexorder"
begin

section \<open>Python string primitives used by the addon\<close>

text \<open>
  A Python string is held as the list of the bytes of its UTF-8 form, so an ASCII
  character is one \<open>char\<close> and any other code point is a run of bytes from 128 up. The
  dot, the parentheses and the slash are ASCII, and no byte of a longer UTF-8 sequence
  is an ASCII byte, so splitting at dots, testing a suffix and cutting a trailing \<open>()\<close>
  give the same result on the bytes as on the code points. The functions below are the
  few methods of \<^verbatim>\<open>str\<close> the addon calls, written as recursive scans.
\<close>

text \<open>\<^verbatim>\<open>s.split(".")\<close>: the parts between the dots; never the empty list.\<close>

fun split_dot :: "string \<Rightarrow> string list" where
  "split_dot [] = [[]]"
| "split_dot (c # cs) =
     (if c = CHR ''.'' then [] # split_dot cs
      else (case split_dot cs of [] \<Rightarrow> [[c]] | p # ps \<Rightarrow> (c # p) # ps))"

text \<open>\<^verbatim>\<open>".".join(parts)\<close>.\<close>

fun join_dot :: "string list \<Rightarrow> string" where
  "join_dot [] = []"
| "join_dot [p] = p"
| "join_dot (p # q # ps) = p @ ''.'' @ join_dot (q # ps)"

text \<open>\<^verbatim>\<open>s.endswith(suf)\<close>.\<close>

definition endswith :: "string \<Rightarrow> string \<Rightarrow> bool" where
  "endswith s suf \<longleftrightarrow>
     length suf \<le> length s \<and> drop (length s - length suf) s = suf"

text \<open>The slice \<^verbatim>\<open>s[:-2]\<close>: everything but the last two characters.\<close>

definition drop_last2 :: "string \<Rightarrow> string" where
  "drop_last2 s = take (length s - 2) s"

text \<open>\<^verbatim>\<open>s.replace(".", "")\<close>: a scan that skips every dot.\<close>

fun replace_dot :: "string \<Rightarrow> string" where
  "replace_dot [] = []"
| "replace_dot (c # cs) = (if c = CHR ''.'' then replace_dot cs else c # replace_dot cs)"

text \<open>
  \<^verbatim>\<open>s.lower()\<close>, as far as ASCII goes: the letters \<open>A\<close> to \<open>Z\<close> (codes 65 to 90)
  move to \<open>a\<close> to \<open>z\<close> (add 32) and every other byte is kept. That is the result of
  \<^verbatim>\<open>lower()\<close> for every ASCII string, and for every string whose other code points
  \<^verbatim>\<open>lower()\<close> leaves as they are; the lower-case forms Unicode gives to letters outside
  ASCII are not part of this model, and what is stated about lower-casing below is
  stated for ASCII input.
\<close>

definition is_upper :: "char \<Rightarrow> bool" where
  "is_upper c \<longleftrightarrow> 65 \<le> (of_char c :: nat) \<and> (of_char c :: nat) \<le> 90"

definition lower_char :: "char \<Rightarrow> char" where
  "lower_char c = (if is_upper c then char_of ((of_char c :: nat) + 32) else c)"

definition lower :: "string \<Rightarrow> string" where
  "lower s = map lower_char s"

section \<open>The preference store\<close>

text \<open>
  \<^verbatim>\<open>FileAssociation\<close> is a property group with two string fields; the preferences hold
  a collection of them, in insertion order.
\<close>

record FileAssociation =
  extension :: string
  "operator" :: string

text \<open>
  \<^verbatim>\<open>operator_code_update\<close>: the update callback of the \<^verbatim>\<open>operator\<close> field. It
  assigns a new value to \<^verbatim>\<open>self.operator\<close> in three of its four paths and leaves the
  field alone in the last. The host runs the update callback of a field on every
  assignment to that field, also on one made by the callback itself, so each of the
  three assignments is followed by a run of the callback on the new value: the recursive
  calls. Every assigned value is shorter than the one before, which ends the recursion.
\<close>

function operator_code_update :: "FileAssociation \<Rightarrow> FileAssociation" where
  "operator_code_update self =
     (let truncate_suffix = endswith (operator self) ''()'';
          new_base = (if length (split_dot (operator self)) = 4
                      then Some (join_dot (drop 2 (split_dot (operator self))))
                      else None)
      in case new_base of
           Some nb \<Rightarrow>
             if nb \<noteq> [] \<and> truncate_suffix
             then operator_code_update (self\<lparr>operator := drop_last2 nb\<rparr>)
             else if nb \<noteq> [] then operator_code_update (self\<lparr>operator := nb\<rparr>)
             else if truncate_suffix
             then operator_code_update (self\<lparr>operator := drop_last2 (operator self)\<rparr>)
             else self
         | None \<Rightarrow>
             if truncate_suffix
             then operator_code_update (self\<lparr>operator := drop_last2 (operator self)\<rparr>)
             else self)"
  by pat_completeness auto
termination
proof -
  have ne: "split_dot s \<noteq> []" for s
    by (induction s) (auto split: list.splits)
  have J: "join_dot (split_dot s) = s" for s
  proof (induction s)
    case Nil
    show ?case by simp
  next
    case (Cons c cs)
    show ?case
    proof (cases "split_dot cs")
      case Nil
      with ne[of cs] show ?thesis by simp
    next
      case (Cons p ps)
      with Cons.IH show ?thesis by (cases ps) auto
    qed
  qed
  have four: "length (join_dot (drop 2 (split_dot s))) < length s"
    if "length (split_dot s) = 4" for s
  proof -
    from that obtain a b c d where e: "split_dot s = [a, b, c, d]"
      by (auto simp: length_Suc_conv eval_nat_numeral)
    have "length (join_dot (split_dot s)) = length s" by (simp only: J)
    with e show ?thesis by simp
  qed
  have cut: "length (drop_last2 s) < length s" if "endswith s ''()''" for s
  proof -
    from that have "2 \<le> length s" by (simp add: endswith_def)
    thus ?thesis by (simp add: drop_last2_def)
  qed
  have cut_le: "length (drop_last2 s) \<le> length s" for s
    by (simp add: drop_last2_def)
  show ?thesis
  proof (relation "measure (\<lambda>self. length (operator self))", goal_cases)
    case 1
    show ?case by simp
  next
    case (2 self ts nb)
    with cut[of "operator self"] show ?case by simp
  next
    case (3 self ts nb x)
    hence "length (split_dot (operator self)) = 4"
      and "x = join_dot (drop 2 (split_dot (operator self)))"
      by (simp_all split: if_splits)
    with four[of "operator self"] cut_le[of x] show ?case by simp
  next
    case (4 self ts nb x)
    hence "length (split_dot (operator self)) = 4"
      and "x = join_dot (drop 2 (split_dot (operator self)))"
      by (simp_all split: if_splits)
    with four[of "operator self"] show ?case by simp
  next
    case (5 self ts nb x)
    with cut[of "operator self"] show ?case by simp
  qed
qed

declare operator_code_update.simps [simp del]

text \<open>\<^verbatim>\<open>", ".join(parts)\<close>.\<close>

fun join_comma :: "string list \<Rightarrow> string" where
  "join_comma [] = []"
| "join_comma [p] = p"
| "join_comma (p # q # ps) = p @ '', '' @ join_comma (q # ps)"

section \<open>Path functions of the standard library (POSIX flavour)\<close>

text \<open>\<^verbatim>\<open>s.rfind(c)\<close> for a single character: the last index of \<open>c\<close>, or \<open>-1\<close>.\<close>

definition rfind :: "char \<Rightarrow> string \<Rightarrow> int" where
  "rfind c s =
     (if c \<in> set s then int (length s) - 1 - int (length (takeWhile (\<lambda>x. x \<noteq> c) (rev s)))
      else - 1)"

text \<open>
  \<^verbatim>\<open>os.path.splitext(p)\<close>: the split is at the last dot, when that dot comes after the
  last separator and some character between the separator and the dot is not a dot
  (leading dots of the file name do not start an extension).
\<close>

definition splitext :: "string \<Rightarrow> string \<times> string" where
  "splitext p =
     (let sepIndex = rfind (CHR ''/'') p;
          dotIndex = rfind (CHR ''.'') p
      in if dotIndex > sepIndex
            \<and> list_ex (\<lambda>c. c \<noteq> CHR ''.'')
                 (take (nat dotIndex - nat (sepIndex + 1)) (drop (nat (sepIndex + 1)) p))
         then (take (nat dotIndex) p, drop (nat dotIndex) p)
         else (p, []))"

text \<open>\<^verbatim>\<open>os.path.dirname(p)\<close>.\<close>

definition dirname :: "string \<Rightarrow> string" where
  "dirname p =
     (let head = take (nat (rfind (CHR ''/'') p + 1)) p
      in if head \<noteq> [] \<and> head \<noteq> replicate (length head) (CHR ''/'')
         then rev (dropWhile (\<lambda>c. c = CHR ''/'') (rev head))
         else head)"

text \<open>\<^verbatim>\<open>os.path.join(a, b)\<close> with two arguments.\<close>

definition path_join :: "string \<Rightarrow> string \<Rightarrow> string" where
  "path_join a b =
     (if b \<noteq> [] \<and> hd b = CHR ''/'' then b
      else if a = [] \<or> last a = CHR ''/'' then a @ b
      else a @ ''/'' @ b)"

section \<open>Errors, results and the host application\<close>

datatype py_error = IndexError | ValueError | TypeError | OperatorError

datatype status = FINISHED | CANCELLED

datatype level = WARNING | ERROR

text \<open>
  The value of a keyword argument: a string, or a list of dictionaries with string
  values (the \<^verbatim>\<open>files\<close> collection). A dictionary is its list of items in insertion
  order; the literal \<^verbatim>\<open>{"name": name, "name": name}\<close> has the one key \<^verbatim>\<open>name\<close>.
\<close>

datatype kwval = StrV string | DictsV "(string \<times> string) list list"

record op_call =
  op_base :: string
  op_name :: string
  args :: "string list"
  kwargs :: "(string \<times> kwval) list"

text \<open>What the addon does to the host: a report to the user, or a call of an operator.\<close>

datatype event = Report level string | Invoke op_call

text \<open>
  The host application is a parameter of the model: the operator registry as
  \<^verbatim>\<open>dir(bpy.ops)\<close> and \<^verbatim>\<open>dir(getattr(bpy.ops, base))\<close> list it, the attribute names of
  the object \<^verbatim>\<open>operator_properties_last(oper)\<close> returns (none when it returns
  \<^verbatim>\<open>None\<close>), whether a call of an operator raises (which may depend on what was done
  before), and the order in which Python iterates over the set built from a list.
\<close>

record host =
  ops_dir :: "string list"
  ops_sub_dir :: "string \<Rightarrow> string list"
  operator_properties_last :: "string \<Rightarrow> string list"
  op_raises :: "event list \<Rightarrow> op_call \<Rightarrow> bool"
  set_order :: "string list \<Rightarrow> string list"

text \<open>
  The addon's state: the collection \<^verbatim>\<open>prefs.file_extensions\<close> and the module-level
  dictionary \<^verbatim>\<open>oper_cache\<close>.
\<close>

record state =
  file_extensions :: "FileAssociation list"
  oper_cache :: "(string \<times> bool) list"

section \<open>Operator lookup\<close>

definition reset_oper_cache :: "state \<Rightarrow> state" where
  "reset_oper_cache s = s\<lparr>oper_cache := []\<rparr>"

text \<open>
  \<^verbatim>\<open>operator_exists(ref, refresh)\<close>. The unpacking \<^verbatim>\<open>base, oprs = ref.split(".")\<close>
  raises \<^verbatim>\<open>ValueError\<close> unless the split has exactly two parts.
\<close>

definition operator_exists :: "host \<Rightarrow> state \<Rightarrow> string \<Rightarrow> bool \<Rightarrow> (py_error + bool) \<times> state" where
  "operator_exists h s ref refresh =
     (let s1 = (if refresh then s\<lparr>oper_cache := []\<rparr> else s)
      in case (if \<not> refresh then map_of (oper_cache s1) ref else None) of
           Some cached \<Rightarrow> (Inr cached, s1)
         | None \<Rightarrow>
             if CHR ''.'' \<notin> set ref then (Inr False, s1)
             else (case split_dot ref of
                     [base, oprs] \<Rightarrow>
                       (let res = (base \<in> set (ops_dir h) \<and> oprs \<in> set (ops_sub_dir h base))
                        in (Inr res, s1\<lparr>oper_cache := AList.update ref res (oper_cache s1)\<rparr>))
                   | _ \<Rightarrow> (Inl ValueError, s1)))"

section \<open>The preference operators\<close>

text \<open>The dictionary \<^verbatim>\<open>defaults\<close> of \<^verbatim>\<open>reset_extensions\<close>, in the order it is written.\<close>

definition defaults :: "(string \<times> string) list" where
  "defaults =
     [(''bvh'', ''import_anim.bvh''),
      (''fbx'', ''import_scene.fbx''),
      (''obj'', ''import_scene.obj''),
      (''abc'', ''wm.alembic_import''),
      (''dae'', ''wm.collada_import''),
      (''stl'', ''import_mesh.stl''),
      (''svg'', ''import_curve.svg''),
      (''dxf'', ''import_scene.dxf''),
      (''ase'', ''import_ase.read''),
      (''mdd'', ''import_shape.mdd''),
      (''chan'', ''import_scene.import_chan''),
      (''wrl'', ''import_scene.x3d''),
      (''x3d'', ''import_scene.x3d''),
      (''xyz'', ''import_mesh.xyz''),
      (''txt'', ''text.open''),
      (''rtf'', ''text.open''),
      (''py'', ''text.open'')]"

text \<open>
  \<^verbatim>\<open>reset_extensions\<close>: clear the collection, then add one entry per key of
  \<^verbatim>\<open>defaults\<close>, in sorted order. The keys come from the dictionary itself, so the
  lookup \<^verbatim>\<open>defaults[ext]\<close> finds each of them.
\<close>

definition reset_extensions :: "state \<Rightarrow> status \<times> state" where
  "reset_extensions s =
     (let s1 = reset_oper_cache s;
          s2 = s1\<lparr>file_extensions := []\<rparr>
      in (FINISHED,
          fold (\<lambda>ext st.
                  st\<lparr>file_extensions := file_extensions st @
                        [\<lparr>extension = ext,
                          operator = (case map_of defaults ext of Some v \<Rightarrow> v | None \<Rightarrow> [])\<rparr>]\<rparr>)
               (sort (map fst defaults)) s2))"

text \<open>\<^verbatim>\<open>add_extension\<close>, with the operator's \<^verbatim>\<open>extension\<close> property as argument.\<close>

definition add_extension :: "string \<Rightarrow> state \<Rightarrow> status \<times> event list \<times> state" where
  "add_extension ext s =
     (let s1 = reset_oper_cache s;
          this_ext = lower (replace_dot ext);
          curr_exts = map extension (file_extensions s1)
      in if this_ext \<in> set curr_exts
         then (CANCELLED, [Report ERROR ''Extension already defined''], s1)
         else (FINISHED, [],
               s1\<lparr>file_extensions := file_extensions s1 @
                     [\<lparr>extension = this_ext, operator = []\<rparr>]\<rparr>))"

text \<open>
  The search loop of \<^verbatim>\<open>remove_extension\<close>: the index of the first entry whose
  extension is the requested one, counting from \<open>i\<close>.
\<close>

fun find_pop :: "string \<Rightarrow> FileAssociation list \<Rightarrow> nat \<Rightarrow> nat option" where
  "find_pop e [] i = None"
| "find_pop e (x # xs) i = (if extension x \<noteq> e then find_pop e xs (Suc i) else Some i)"

definition remove_extension :: "string \<Rightarrow> state \<Rightarrow> status \<times> event list \<times> state" where
  "remove_extension ext s =
     (let s1 = reset_oper_cache s
      in case find_pop ext (file_extensions s1) 0 of
           Some pop \<Rightarrow>
             (FINISHED, [],
              s1\<lparr>file_extensions :=
                    take pop (file_extensions s1) @ drop (Suc pop) (file_extensions s1)\<rparr>)
         | None \<Rightarrow>
             (CANCELLED,
              [Report ERROR (''Extension '' @ ext @ '' missing, cannot remove'')], s1))"

section \<open>The import operator\<close>

text \<open>The operator's own fields: the chosen path and the names of the selected files.\<close>

record import_any_file =
  filepath :: string
  files :: "string list"

text \<open>The extension of a file name: \<^verbatim>\<open>os.path.splitext(name)[-1][1:]\<close>.\<close>

definition ext_of :: "string \<Rightarrow> string" where
  "ext_of name = drop 1 (snd (splitext name))"

text \<open>
  \<^verbatim>\<open>import_single\<close>, with \<^verbatim>\<open>self.directory\<close> and the names in \<^verbatim>\<open>self.files\<close> as
  arguments and the events so far as \<open>tr\<close>. Every place where the source can raise is a
  branch: no association for \<open>ext\<close> leaves \<^verbatim>\<open>oper\<close> at \<^verbatim>\<open>None\<close>, which the host's
  \<^verbatim>\<open>operator_properties_last\<close> refuses; \<^verbatim>\<open>files[0]\<close> on an empty list; the unpacking
  of \<^verbatim>\<open>oper.split(".")\<close>; and the call of the operator itself.
\<close>

definition import_single ::
  "host \<Rightarrow> state \<Rightarrow> string \<Rightarrow> string list \<Rightarrow> string \<Rightarrow> event list
     \<Rightarrow> (py_error + unit) \<times> event list" where
  "import_single h s directory names ext tr =
     (let fls = filter (\<lambda>name. endswith name ext) names
      in case find (\<lambda>pref_set. extension pref_set = ext) (file_extensions s) of
           None \<Rightarrow> (Inl TypeError, tr)
         | Some pref_set \<Rightarrow>
             (let oper = operator pref_set;
                  props = operator_properties_last h oper;
                  bfilepath = (''filepath'' \<in> set props);
                  bdirectory = (''directory'' \<in> set props);
                  bfiles = (''files'' \<in> set props);
                  kw =
                    (if bfilepath \<and> bdirectory \<and> bfiles then
                       (case fls of
                          [] \<Rightarrow> Inl IndexError
                        | f # _ \<Rightarrow>
                            Inr [(''filepath'', StrV (path_join directory f)),
                                 (''directory'', StrV directory),
                                 (''files'', DictsV (map (\<lambda>name. [(''name'', name)]) fls))])
                     else if bfilepath \<and> bdirectory \<and> \<not> bfiles then
                       (case fls of
                          [] \<Rightarrow> Inl IndexError
                        | f # _ \<Rightarrow>
                            Inr [(''filepath'', StrV f), (''directory'', StrV directory)])
                     else if bfilepath \<and> \<not> bdirectory then
                       (case fls of
                          [] \<Rightarrow> Inl IndexError
                        | f # _ \<Rightarrow> Inr [(''filepath'', StrV (path_join directory f))])
                     else if bfiles \<and> bdirectory then
                       Inr [(''files'', DictsV (map (\<lambda>name. [(''name'', name)]) fls)),
                            (''directory'', StrV directory)]
                     else Inr [])
              in case kw of
                   Inl e \<Rightarrow> (Inl e, tr)
                 | Inr kws \<Rightarrow>
                     (case split_dot oper of
                        [base, oprs] \<Rightarrow>
                          (let c = \<lparr>op_base = base, op_name = oprs,
                                    args = [''INVOKE_DEFAULT''], kwargs = kws\<rparr>
                           in if op_raises h tr c then (Inl OperatorError, tr @ [Invoke c])
                              else (Inr (), tr @ [Invoke c]))
                      | _ \<Rightarrow> (Inl ValueError, tr))))"

text \<open>
  The loop of \<^verbatim>\<open>execute\<close> over the extensions, in the order the set yields them;
  \<open>missing\<close> is \<^verbatim>\<open>ext_missing\<close>. An error of \<^verbatim>\<open>import_single\<close> ends the loop.
\<close>

fun import_loop ::
  "host \<Rightarrow> state \<Rightarrow> string \<Rightarrow> string list \<Rightarrow> string list \<Rightarrow> string list
     \<Rightarrow> event list \<Rightarrow> string list \<Rightarrow> (py_error + unit) \<times> event list \<times> string list" where
  "import_loop h s directory names curr_exts [] tr missing = (Inr (), tr, missing)"
| "import_loop h s directory names curr_exts (ext # rest) tr missing =
     (if ext \<notin> set curr_exts
      then import_loop h s directory names curr_exts rest tr (missing @ [ext])
      else (case import_single h s directory names ext tr of
              (Inl e, tr') \<Rightarrow> (Inl e, tr', missing)
            | (Inr _, tr') \<Rightarrow> import_loop h s directory names curr_exts rest tr' missing))"

text \<open>
  \<^verbatim>\<open>execute\<close> of the import operator. The debugging output \<^verbatim>\<open>print(self.files[0])\<close>
  raises on an empty selection.
\<close>

definition execute ::
  "host \<Rightarrow> state \<Rightarrow> import_any_file \<Rightarrow> (py_error + status) \<times> state \<times> event list" where
  "execute h s self =
     (let s1 = (if file_extensions s = [] then snd (reset_extensions s) else s);
          curr_exts = map extension (file_extensions s1);
          directory = dirname (filepath self)
      in if files self = [] then (Inl IndexError, s1, [])
         else
           (let extensions = set_order h (map ext_of (files self))
            in case import_loop h s1 directory (files self) curr_exts extensions [] [] of
                 (Inl e, tr, ext_missing) \<Rightarrow> (Inl e, s1, tr)
               | (Inr _, tr, ext_missing) \<Rightarrow>
                   (Inr FINISHED, s1,
                    if ext_missing \<noteq> []
                    then tr @ [Report WARNING
                                 (''Extensions not associated: '' @ join_comma ext_missing)]
                    else tr)))"


section \<open>Reachable states and a sample host\<close>

text \<open>
  The states the addon can be in: it starts with an empty collection, and each step is
  one of its operators (\<^verbatim>\<open>reset_extensions\<close>, \<^verbatim>\<open>add_extension\<close>,
  \<^verbatim>\<open>remove_extension\<close>, the import operator), a lookup of an operator, or the user
  typing a new value into the operator field of an entry, which runs the update callback.
\<close>

inductive reachable :: "state \<Rightarrow> bool" where
  initial: "reachable \<lparr>file_extensions = [], oper_cache = []\<rparr>"
| reset: "reachable s \<Longrightarrow> reachable (snd (reset_extensions s))"
| add: "reachable s \<Longrightarrow> reachable (snd (snd (add_extension e s)))"
| remove: "reachable s \<Longrightarrow> reachable (snd (snd (remove_extension e s)))"
| lookup: "reachable s \<Longrightarrow> reachable (snd (operator_exists h s ref refresh))"
| import: "reachable s \<Longrightarrow> reachable (fst (snd (execute h s self)))"
| edit: "reachable s \<Longrightarrow> i < length (file_extensions s) \<Longrightarrow>
     reachable (s\<lparr>file_extensions :=
        (file_extensions s)[i := operator_code_update ((file_extensions s ! i)\<lparr>operator := v\<rparr>)]\<rparr>)"

text \<open>
  A host for the concrete runs below: the operators named in \<open>known\<close> are registered
  and expose the listed properties, no call raises, and a set is iterated in the order
  of first occurrence.
\<close>

definition sample_host :: "(string \<times> string list) list \<Rightarrow> host" where
  "sample_host known =
     \<lparr>ops_dir = map (\<lambda>(n, ps). hd (split_dot n)) known,
      ops_sub_dir = (\<lambda>base. map (\<lambda>(n, ps). last (split_dot n))
                                (filter (\<lambda>(n, ps). hd (split_dot n) = base) known)),
      operator_properties_last = (\<lambda>oper. case map_of known oper of Some ps \<Rightarrow> ps | None \<Rightarrow> []),
      op_raises = (\<lambda>tr c. False),
      set_order = remdups\<rparr>"

text \<open>
  The invariant of the collection: no extension is stored twice, and every stored
  extension is free of dots and of upper-case letters.
\<close>

definition store_ok :: "state \<Rightarrow> bool" where
  "store_ok s \<longleftrightarrow>
     distinct (map extension (file_extensions s))
     \<and> (\<forall>e \<in> set (map extension (file_extensions s)).
           CHR ''.'' \<notin> set e \<and> (\<forall>c \<in> set e. \<not> is_upper c))"


section \<open>Facts about the string primitives\<close>

lemma split_dot_nonempty: "split_dot s \<noteq> []"
  by (induction s) (auto split: list.splits)

lemma split_dot_dotless: "CHR ''.'' \<notin> set p \<Longrightarrow> split_dot (p @ CHR ''.'' # r) = p # split_dot r"
  by (induction p) auto

lemma split_dot_single: "CHR ''.'' \<notin> set p \<Longrightarrow> split_dot p = [p]"
  by (induction p) auto

lemma join_split_dot: "join_dot (split_dot s) = s"
proof (induction s)
  case Nil thus ?case by simp
next
  case (Cons c cs)
  show ?case
  proof (cases "split_dot cs")
    case Nil with split_dot_nonempty show ?thesis by blast
  next
    case (Cons p ps)
    with Cons.IH show ?thesis by (cases ps) auto
  qed
qed

lemma split_dot_parts_dotless: "p \<in> set (split_dot s) \<Longrightarrow> CHR ''.'' \<notin> set p"
proof (induction s arbitrary: p)
  case Nil thus ?case by simp
next
  case (Cons c cs)
  thus ?case by (cases "split_dot cs") (auto split: if_splits)
qed

lemma length_split_dot: "length (split_dot s) = Suc (count_list s (CHR ''.''))"
  by (induction s) (auto split: list.splits simp: split_dot_nonempty)

lemma endswith_iff: "endswith s suf \<longleftrightarrow> (\<exists>u. s = u @ suf)"
  unfolding endswith_def
  by (metis append_eq_conv_conj append_take_drop_id diff_add_inverse2 le_add2 length_append length_drop)

lemma drop_last2_append: "length suf = 2 \<Longrightarrow> drop_last2 (u @ suf) = u"
  by (simp add: drop_last2_def)

lemma endswith_rev: "endswith s suf \<longleftrightarrow> take (length suf) (rev s) = rev suf"
proof
  assume "endswith s suf"
  then obtain u where "s = u @ suf" by (auto simp: endswith_iff)
  thus "take (length suf) (rev s) = rev suf" by simp
next
  assume a: "take (length suf) (rev s) = rev suf"
  have "rev s = take (length suf) (rev s) @ drop (length suf) (rev s)" by simp
  with a have "rev s = rev suf @ drop (length suf) (rev s)" by simp
  hence "s = rev (drop (length suf) (rev s)) @ suf" by (metis rev_append rev_rev_ident)
  thus "endswith s suf" by (auto simp: endswith_iff)
qed

lemma endswith_call_last:
  "endswith (p @ CHR ''.'' # d) ''()'' \<longleftrightarrow> endswith d ''()''"
proof (cases "rev d")
  case Nil thus ?thesis by (simp add: endswith_rev)
next
  case (Cons x xs)
  thus ?thesis by (cases xs) (auto simp: endswith_rev)
qed

lemma split_dot_four:
  assumes "length (split_dot s) = 4"
  obtains a b c d where "split_dot s = [a, b, c, d]" "s = a @ ''.'' @ b @ ''.'' @ c @ ''.'' @ d"
    "CHR ''.'' \<notin> set a" "CHR ''.'' \<notin> set b" "CHR ''.'' \<notin> set c" "CHR ''.'' \<notin> set d"
proof -
  from assms obtain a b c d where e: "split_dot s = [a, b, c, d]"
    by (auto simp: length_Suc_conv eval_nat_numeral)
  have "s = join_dot (split_dot s)" by (simp add: join_split_dot)
  with e have s: "s = a @ ''.'' @ b @ ''.'' @ c @ ''.'' @ d" by simp
  have "\<forall>p \<in> set (split_dot s). CHR ''.'' \<notin> set p" using split_dot_parts_dotless by blast
  with e have "CHR ''.'' \<notin> set a" "CHR ''.'' \<notin> set b" "CHR ''.'' \<notin> set c" "CHR ''.'' \<notin> set d" by auto
  with e s that show thesis by blast
qed


lemma ocu_other_keep:
  assumes "length (split_dot (operator self)) \<noteq> 4" "\<not> endswith (operator self) ''()''"
  shows "operator_code_update self = self"
  using assms by (subst operator_code_update.simps) (simp add: Let_def)

lemma ocu_other_cut:
  assumes "length (split_dot (operator self)) \<noteq> 4" "endswith (operator self) ''()''"
  shows "operator_code_update self
     = operator_code_update (self\<lparr>operator := drop_last2 (operator self)\<rparr>)"
  using assms by (subst operator_code_update.simps) (simp add: Let_def)

lemma ocu_four_step:
  assumes "split_dot (operator self) = [a, b, c, d]"
  shows "operator_code_update self
     = operator_code_update
         (self\<lparr>operator := (if endswith d ''()'' then drop_last2 (c @ ''.'' @ d)
                             else c @ ''.'' @ d)\<rparr>)"
proof -
  have "operator self = join_dot (split_dot (operator self))" by (simp add: join_split_dot)
  with assms have s: "operator self = (a @ ''.'' @ b @ ''.'' @ c) @ CHR ''.'' # d" by simp
  have "endswith (operator self) ''()'' \<longleftrightarrow> endswith d ''()''"
    unfolding s by (rule endswith_call_last)
  thus ?thesis using assms
    by (subst operator_code_update.simps) (simp add: Let_def)
qed

lemma ocu_extension: "extension (operator_code_update self) = extension self"
proof (induction self rule: operator_code_update.induct)
  case (1 self)
  show ?case
    using 1 by (subst operator_code_update.simps) (simp add: Let_def split: option.splits if_splits)
qed

lemma count_dot_append: "count_list (u @ v) (CHR ''.'') = count_list u (CHR ''.'') + count_list v (CHR ''.'')"
  by (induction u) simp_all

lemma split_dot_cut:
  assumes "endswith s ''()''"
  shows "length (split_dot (drop_last2 s)) = length (split_dot s)"
proof -
  from assms obtain u where u: "s = u @ ''()''" by (auto simp: endswith_iff)
  have "drop_last2 (u @ ''()'') = u" by (rule drop_last2_append) simp
  with u show ?thesis by (simp add: length_split_dot count_dot_append)
qed

lemma calls_snoc: "concat (replicate (Suc n) x) = concat (replicate n x) @ x"
  by (induction n) simp_all

lemma ocu_other_strip:
  "length (split_dot (operator self)) \<noteq> 4 \<Longrightarrow>
     (\<exists>n. operator (operator_code_update self) @ concat (replicate n ''()'') = operator self)
     \<and> \<not> endswith (operator (operator_code_update self)) ''()''"
proof (induction "length (operator self)" arbitrary: self rule: less_induct)
  case less
  show ?case
  proof (cases "endswith (operator self) ''()''")
    case False
    with less.prems have "operator_code_update self = self" by (rule ocu_other_keep)
    with False show ?thesis by (simp add: exI[of _ 0])
  next
    case True
    let ?t = "self\<lparr>operator := drop_last2 (operator self)\<rparr>"
    from True obtain u where u: "operator self = u @ ''()''" by (auto simp: endswith_iff)
    have du: "drop_last2 (u @ ''()'') = u" by (rule drop_last2_append) simp
    have st: "operator_code_update self = operator_code_update ?t"
      using less.prems True by (rule ocu_other_cut)
    have l: "length (operator ?t) < length (operator self)" using u du by simp
    have c: "length (split_dot (operator ?t)) \<noteq> 4"
      using split_dot_cut[OF True] less.prems by simp
    from less.hyps[OF l c] obtain n where
      n: "operator (operator_code_update ?t) @ concat (replicate n ''()'') = operator ?t"
      and e: "\<not> endswith (operator (operator_code_update ?t)) ''()''" by auto
    from n u du have "operator (operator_code_update ?t) @ concat (replicate n ''()'') = u" by simp
    hence "operator (operator_code_update ?t) @ concat (replicate (Suc n) ''()'') = u @ ''()''"
      by (simp only: calls_snoc append_assoc[symmetric])
    with u st e show ?thesis by (metis)
  qed
qed


lemma split_dot_two:
  "CHR ''.'' \<notin> set base \<Longrightarrow> CHR ''.'' \<notin> set oprs \<Longrightarrow> split_dot (base @ CHR ''.'' # oprs) = [base, oprs]"
  by (simp add: split_dot_dotless split_dot_single)

lemma ocu_four_strip:
  assumes e: "split_dot (operator self) = [a, b, c, d]"
  shows "(\<exists>n. operator (operator_code_update self) @ concat (replicate n ''()'') = c @ ''.'' @ d)
     \<and> \<not> endswith (operator (operator_code_update self)) ''()''"
proof -
  have "c \<in> set (split_dot (operator self))" "d \<in> set (split_dot (operator self))"
    using e by simp_all
  hence nc: "CHR ''.'' \<notin> set c" and nd: "CHR ''.'' \<notin> set d"
    by (simp_all add: split_dot_parts_dotless)
  have two: "length (split_dot (c @ ''.'' @ d)) = 2" using split_dot_two[OF nc nd] by simp
  let ?v = "if endswith d ''()'' then drop_last2 (c @ ''.'' @ d) else c @ ''.'' @ d"
  let ?t = "self\<lparr>operator := ?v\<rparr>"
  have st: "operator_code_update self = operator_code_update ?t" using e by (rule ocu_four_step)
  have ed: "endswith (c @ ''.'' @ d) ''()'' \<longleftrightarrow> endswith d ''()''"
    using endswith_call_last[of c d] by simp
  have "length (split_dot ?v) = 2"
  proof (cases "endswith d ''()''")
    case True
    hence "endswith (c @ ''.'' @ d) ''()''" by (simp only: ed)
    from split_dot_cut[OF this] two True show ?thesis by simp
  next
    case False
    with two show ?thesis by simp
  qed
  hence "length (split_dot (operator ?t)) \<noteq> 4" by simp
  from ocu_other_strip[OF this] obtain n where
    n: "operator (operator_code_update ?t) @ concat (replicate n ''()'') = ?v"
    and x: "\<not> endswith (operator (operator_code_update ?t)) ''()''" by auto
  have "\<exists>m. operator (operator_code_update ?t) @ concat (replicate m ''()'') = c @ ''.'' @ d"
  proof (cases "endswith d ''()''")
    case False
    with n show ?thesis by (simp add: exI[of _ n])
  next
    case True
    then obtain u where u: "d = u @ ''()''" by (auto simp: endswith_iff)
    have "drop_last2 ((c @ ''.'' @ u) @ ''()'') = c @ ''.'' @ u" by (rule drop_last2_append) simp
    with n True u have "operator (operator_code_update ?t) @ concat (replicate n ''()'') = c @ ''.'' @ u"
      by simp
    hence "operator (operator_code_update ?t) @ concat (replicate (Suc n) ''()'') = (c @ ''.'' @ u) @ ''()''"
      by (simp only: calls_snoc append_assoc[symmetric])
    with u show ?thesis by (simp add: exI[of _ "Suc n"])
  qed
  with x st show ?thesis by simp
qed


section \<open>The auto-fix of the operator field\<close>

text \<open>
  Claim C10, as the code has it. When the operator string has exactly four dot-separated
  components \<open>a.b.c.d\<close>, the stored result is \<open>c.d\<close> without its trailing \<open>()\<close>s. With
  any other number of components the result is the string without its trailing \<open>()\<close>s,
  and the string itself when it has none. In both cases every trailing \<open>()\<close> goes, not
  only one, since each assignment runs the callback again: the result never ends in
  \<open>()\<close>. The number of components is one more than the number of dots, and the
  extension field is never touched.
\<close>

theorem operator_code_update_strips_calls:
  "(length (split_dot (operator self)) = 4 \<longrightarrow>
      (\<exists>a b c d n. operator self = a @ ''.'' @ b @ ''.'' @ c @ ''.'' @ d
         \<and> CHR ''.'' \<notin> set (a @ b @ c @ d)
         \<and> operator (operator_code_update self) @ concat (replicate n ''()'') = c @ ''.'' @ d))
   \<and> (length (split_dot (operator self)) \<noteq> 4 \<longrightarrow>
      (\<exists>n. operator (operator_code_update self) @ concat (replicate n ''()'') = operator self))
   \<and> (\<nexists>u. operator (operator_code_update self) = u @ ''()'')
   \<and> length (split_dot (operator self)) = Suc (count_list (operator self) (CHR ''.''))
   \<and> extension (operator_code_update self) = extension self"
proof (intro conjI impI)
  assume "length (split_dot (operator self)) = 4"
  then obtain a b c d where e: "split_dot (operator self) = [a, b, c, d]"
    and s: "operator self = a @ ''.'' @ b @ ''.'' @ c @ ''.'' @ d"
    and n: "CHR ''.'' \<notin> set a" "CHR ''.'' \<notin> set b" "CHR ''.'' \<notin> set c" "CHR ''.'' \<notin> set d"
    by (rule split_dot_four)
  from ocu_four_strip[OF e] obtain m where
    "operator (operator_code_update self) @ concat (replicate m ''()'') = c @ ''.'' @ d" by auto
  with s n show "\<exists>a b c d n. operator self = a @ ''.'' @ b @ ''.'' @ c @ ''.'' @ d
         \<and> CHR ''.'' \<notin> set (a @ b @ c @ d)
         \<and> operator (operator_code_update self) @ concat (replicate n ''()'') = c @ ''.'' @ d"
    by (intro exI[of _ a] exI[of _ b] exI[of _ c] exI[of _ d] exI[of _ m]) simp
next
  assume "length (split_dot (operator self)) \<noteq> 4"
  from ocu_other_strip[OF this]
  show "\<exists>n. operator (operator_code_update self) @ concat (replicate n ''()'') = operator self"
    by (rule conjunct1)
next
  have "\<not> endswith (operator (operator_code_update self)) ''()''"
  proof (cases "length (split_dot (operator self)) = 4")
    case True
    then obtain a b c d where "split_dot (operator self) = [a, b, c, d]"
      by (auto simp: length_Suc_conv eval_nat_numeral)
    from ocu_four_strip[OF this] show ?thesis by (rule conjunct2)
  next
    case False
    from ocu_other_strip[OF this] show ?thesis by (rule conjunct2)
  qed
  thus "\<nexists>u. operator (operator_code_update self) = u @ ''()''" unfolding endswith_iff .
next
  show "length (split_dot (operator self)) = Suc (count_list (operator self) (CHR ''.''))"
    by (rule length_split_dot)
next
  show "extension (operator_code_update self) = extension self" by (rule ocu_extension)
qed


theorem operator_code_update_strips_calls_witness:
  "length (split_dot (operator \<lparr>extension = ''obj'', operator = ''bpy.ops.import_scene.obj()''\<rparr>)) = 4
   \<and> (\<exists>a b c d n.
         operator \<lparr>extension = ''obj'', operator = ''bpy.ops.import_scene.obj()''\<rparr>
           = a @ ''.'' @ b @ ''.'' @ c @ ''.'' @ d
         \<and> CHR ''.'' \<notin> set (a @ b @ c @ d)
         \<and> operator (operator_code_update
               \<lparr>extension = ''obj'', operator = ''bpy.ops.import_scene.obj()''\<rparr>)
             @ concat (replicate n ''()'') = c @ ''.'' @ d)
   \<and> operator (operator_code_update
         \<lparr>extension = ''obj'', operator = ''bpy.ops.import_scene.obj()''\<rparr>) = ''import_scene.obj''
   \<and> length (split_dot (operator \<lparr>extension = ''obj'', operator = ''x.y()()''\<rparr>)) \<noteq> 4
   \<and> (\<exists>n. operator (operator_code_update \<lparr>extension = ''obj'', operator = ''x.y()()''\<rparr>)
             @ concat (replicate n ''()'')
           = operator \<lparr>extension = ''obj'', operator = ''x.y()()''\<rparr>)"
proof -
  let ?X = "\<lparr>extension = ''obj'', operator = ''bpy.ops.import_scene.obj()''\<rparr>"
  let ?Y = "\<lparr>extension = ''obj'', operator = ''x.y()()''\<rparr>"
  have h: "length (split_dot (operator ?X)) = 4" by simp
  have k: "length (split_dot (operator ?Y)) \<noteq> 4" by simp
  note TX = operator_code_update_strips_calls [of ?X]
  note TY = operator_code_update_strips_calls [of ?Y]
  from TX have "length (split_dot (operator ?X)) = 4 \<longrightarrow>
      (\<exists>a b c d n. operator ?X = a @ ''.'' @ b @ ''.'' @ c @ ''.'' @ d
         \<and> CHR ''.'' \<notin> set (a @ b @ c @ d)
         \<and> operator (operator_code_update ?X) @ concat (replicate n ''()'') = c @ ''.'' @ d)"
    by (rule conjunct1)
  from this h have e: "\<exists>a b c d n. operator ?X = a @ ''.'' @ b @ ''.'' @ c @ ''.'' @ d
         \<and> CHR ''.'' \<notin> set (a @ b @ c @ d)
         \<and> operator (operator_code_update ?X) @ concat (replicate n ''()'') = c @ ''.'' @ d"
    by (rule mp)
  from TY have "length (split_dot (operator ?Y)) \<noteq> 4 \<longrightarrow>
      (\<exists>n. operator (operator_code_update ?Y) @ concat (replicate n ''()'') = operator ?Y)"
    by (rule conjunct1[OF conjunct2])
  from this k have f: "\<exists>n. operator (operator_code_update ?Y) @ concat (replicate n ''()'') = operator ?Y"
    by (rule mp)
  have r: "operator (operator_code_update ?X) = ''import_scene.obj''" by code_simp
  from h e r k f show ?thesis by (intro conjI)
qed

text \<open>
  The claim as worded, with a single trailing \<open>()\<close> stripped, fails where the string ends
  in two of them: \<open>x.y()()\<close> has two components and is stored as \<open>x.y\<close>, not \<open>x.y()\<close>.
\<close>

theorem operator_code_update_strips_twice:
  "operator (operator_code_update \<lparr>extension = ''obj'', operator = ''x.y()()''\<rparr>) = ''x.y''
   \<and> operator (operator_code_update \<lparr>extension = ''obj'', operator = ''x.y()()''\<rparr>) \<noteq> ''x.y()''"
  by code_simp



section \<open>Removing an association\<close>

lemma find_pop_None: "find_pop e xs i = None \<longleftrightarrow> e \<notin> set (map extension xs)"
  by (induction xs arbitrary: i) auto

lemma find_pop_Some:
  "find_pop e xs i = Some k \<Longrightarrow>
     \<exists>pre x post. xs = pre @ x # post \<and> extension x = e \<and> e \<notin> set (map extension pre)
        \<and> k = i + length pre"
proof (induction xs arbitrary: i)
  case Nil thus ?case by simp
next
  case (Cons y ys)
  show ?case
  proof (cases "extension y = e")
    case True
    with Cons.prems have "k = i" by simp
    with True show ?thesis by (intro exI[of _ "[]"] exI[of _ y] exI[of _ ys]) simp
  next
    case False
    with Cons.prems have "find_pop e ys (Suc i) = Some k" by simp
    from Cons.IH[OF this] obtain pre x post where
      "ys = pre @ x # post" "extension x = e" "e \<notin> set (map extension pre)" "k = Suc i + length pre"
      by blast
    with False show ?thesis
      by (intro exI[of _ "y # pre"] exI[of _ x] exI[of _ post]) simp
  qed
qed


text \<open>
  Claim C9. When the requested extension is present, \<^verbatim>\<open>remove_extension\<close> removes the
  first entry that has it, keeps every other entry in place and returns \<open>FINISHED\<close>
  without a report. When it is absent, the operator reports the error, returns
  \<open>CANCELLED\<close> and leaves the collection as it was. (Both paths empty the operator
  cache first.)
\<close>

theorem remove_extension_first_only:
  "(e \<in> set (map extension (file_extensions s)) \<longrightarrow>
      (\<exists>pre x post. file_extensions s = pre @ x # post \<and> extension x = e
          \<and> e \<notin> set (map extension pre)
          \<and> remove_extension e s =
              (FINISHED, [], s\<lparr>file_extensions := pre @ post, oper_cache := []\<rparr>)))
   \<and> (e \<notin> set (map extension (file_extensions s)) \<longrightarrow>
      remove_extension e s =
        (CANCELLED, [Report ERROR (''Extension '' @ e @ '' missing, cannot remove'')],
         s\<lparr>oper_cache := []\<rparr>))"
proof (intro conjI impI)
  assume a: "e \<in> set (map extension (file_extensions s))"
  have "find_pop e (file_extensions s) 0 \<noteq> None"
  proof
    assume "find_pop e (file_extensions s) 0 = None"
    hence "e \<notin> set (map extension (file_extensions s))" by (rule find_pop_None[THEN iffD1])
    with a show False by contradiction
  qed
  then obtain k where k: "find_pop e (file_extensions s) 0 = Some k"
    by (cases "find_pop e (file_extensions s) 0") simp_all
  from find_pop_Some[OF k] obtain pre x post where
    d: "file_extensions s = pre @ x # post" "extension x = e" "e \<notin> set (map extension pre)"
       "k = length pre" by auto
  have "remove_extension e s = (FINISHED, [], s\<lparr>file_extensions := pre @ post, oper_cache := []\<rparr>)"
    using k d(1) d(4) by (simp add: remove_extension_def reset_oper_cache_def)
  with d(1-3) show "\<exists>pre x post. file_extensions s = pre @ x # post \<and> extension x = e
          \<and> e \<notin> set (map extension pre)
          \<and> remove_extension e s =
              (FINISHED, [], s\<lparr>file_extensions := pre @ post, oper_cache := []\<rparr>)"
    by (intro exI[of _ pre] exI[of _ x] exI[of _ post] conjI)
next
  assume "e \<notin> set (map extension (file_extensions s))"
  hence "find_pop e (file_extensions s) 0 = None" by (rule find_pop_None[THEN iffD2])
  thus "remove_extension e s =
        (CANCELLED, [Report ERROR (''Extension '' @ e @ '' missing, cannot remove'')],
         s\<lparr>oper_cache := []\<rparr>)"
    by (simp add: remove_extension_def reset_oper_cache_def)
qed

theorem remove_extension_first_only_witness:
  "''obj'' \<in> set (map extension
       [\<lparr>extension = ''fbx'', operator = ''import_scene.fbx''\<rparr>,
        \<lparr>extension = ''obj'', operator = ''import_scene.obj''\<rparr>,
        \<lparr>extension = ''obj'', operator = ''x.y''\<rparr>])
   \<and> fst (remove_extension ''obj''
        \<lparr>file_extensions = [\<lparr>extension = ''fbx'', operator = ''import_scene.fbx''\<rparr>,
                             \<lparr>extension = ''obj'', operator = ''import_scene.obj''\<rparr>,
                             \<lparr>extension = ''obj'', operator = ''x.y''\<rparr>],
         oper_cache = [(''x.y'', False)]\<rparr>) = FINISHED
   \<and> ''png'' \<notin> set (map extension [\<lparr>extension = ''fbx'', operator = ''import_scene.fbx''\<rparr>])
   \<and> remove_extension ''png''
        \<lparr>file_extensions = [\<lparr>extension = ''fbx'', operator = ''import_scene.fbx''\<rparr>],
         oper_cache = []\<rparr>
      = (CANCELLED, [Report ERROR ''Extension png missing, cannot remove''],
         \<lparr>file_extensions = [\<lparr>extension = ''fbx'', operator = ''import_scene.fbx''\<rparr>],
          oper_cache = []\<rparr>)"
proof -
  let ?s = "\<lparr>file_extensions = [\<lparr>extension = ''fbx'', operator = ''import_scene.fbx''\<rparr>,
                             \<lparr>extension = ''obj'', operator = ''import_scene.obj''\<rparr>,
                             \<lparr>extension = ''obj'', operator = ''x.y''\<rparr>],
         oper_cache = [(''x.y'', False)]\<rparr>"
  let ?t = "\<lparr>file_extensions = [\<lparr>extension = ''fbx'', operator = ''import_scene.fbx''\<rparr>],
         oper_cache = []\<rparr>"
  have p: "''obj'' \<in> set (map extension (file_extensions ?s))" by simp
  from remove_extension_first_only [of "''obj''" ?s] p
  obtain pre post where
    "remove_extension ''obj'' ?s = (FINISHED, [], ?s\<lparr>file_extensions := pre @ post, oper_cache := []\<rparr>)"
    by blast
  hence f: "fst (remove_extension ''obj'' ?s) = FINISHED" by simp
  have q: "''png'' \<notin> set (map extension (file_extensions ?t))" by simp
  from remove_extension_first_only [of "''png''" ?t] q
  have "remove_extension ''png'' ?t
      = (CANCELLED, [Report ERROR (''Extension '' @ ''png'' @ '' missing, cannot remove'')],
         ?t\<lparr>oper_cache := []\<rparr>)" by blast
  hence g: "remove_extension ''png'' ?t
      = (CANCELLED, [Report ERROR ''Extension png missing, cannot remove''], ?t)" by simp
  from p f q g show ?thesis by simp
qed

section \<open>Adding an association\<close>


lemma lower_char_not_upper: "\<not> is_upper (lower_char c)"
  by (auto simp: lower_char_def is_upper_def)

lemma lower_char_code: "is_upper c \<Longrightarrow> (of_char (lower_char c) :: nat) = of_char c + 32"
  by (auto simp: lower_char_def is_upper_def)

lemma lower_char_not_dot: "c \<noteq> CHR ''.'' \<Longrightarrow> lower_char c \<noteq> CHR ''.''"
proof (cases "is_upper c")
  case True
  hence "(of_char (lower_char c) :: nat) = of_char c + 32" by (rule lower_char_code)
  moreover assume "c \<noteq> CHR ''.''"
  show ?thesis
  proof
    assume "lower_char c = CHR ''.''"
    hence "(of_char (lower_char c) :: nat) = 46" by simp
    with \<open>(of_char (lower_char c) :: nat) = of_char c + 32\<close> True show False
      by (simp add: is_upper_def)
  qed
next
  case False
  assume "c \<noteq> CHR ''.''"
  with False show ?thesis by (simp add: lower_char_def)
qed

lemma lower_char_id: "\<not> is_upper c \<Longrightarrow> lower_char c = c"
  by (simp add: lower_char_def)

lemma lower_char_not_dot_sym: "c \<noteq> CHR ''.'' \<Longrightarrow> CHR ''.'' \<noteq> lower_char c"
  using lower_char_not_dot[of c] by (rule_tac notI) (drule sym, simp)

lemma normalized_no_dot: "CHR ''.'' \<notin> set (lower (replace_dot s))"
proof (induction s)
  case Nil show ?case by (simp add: lower_def)
next
  case (Cons a s)
  thus ?case by (simp add: lower_def lower_char_not_dot_sym)
qed

lemma normalized_no_upper: "c \<in> set (lower (replace_dot s)) \<Longrightarrow> \<not> is_upper c"
  by (auto simp: lower_def lower_char_not_upper)

lemma normalize_fixed:
  "CHR ''.'' \<notin> set e \<Longrightarrow> \<forall>c \<in> set e. \<not> is_upper c \<Longrightarrow> lower (replace_dot e) = e"
  by (induction e) (auto simp: lower_def lower_char_id)

lemma ocu_empty: "operator_code_update \<lparr>extension = n, operator = []\<rparr> = \<lparr>extension = n, operator = []\<rparr>"
  by (rule ocu_other_keep) (simp_all add: endswith_def)







section \<open>The preference store is a mapping\<close>

lemma defaults_keys_distinct: "distinct (map fst defaults)"
  by code_simp

lemma defaults_keys_normal:
  "list_all (\<lambda>e. CHR ''.'' \<notin> set e \<and> list_all (\<lambda>c. \<not> is_upper c) e) (map fst defaults)"
  by code_simp

lemma fold_add_entries:
  "fold (\<lambda>ext st. st\<lparr>file_extensions := file_extensions st @ [f ext]\<rparr>) xs s
     = s\<lparr>file_extensions := file_extensions s @ map f xs\<rparr>"
  by (induction xs arbitrary: s) simp_all

lemma reset_extensions_store:
  "map extension (file_extensions (snd (reset_extensions s))) = sort (map fst defaults)"
  by (simp add: reset_extensions_def reset_oper_cache_def Let_def fold_add_entries comp_def)

lemma store_ok_reset: "store_ok (snd (reset_extensions s))"
proof -
  have "\<forall>e \<in> set (map fst defaults). CHR ''.'' \<notin> set e \<and> (\<forall>c \<in> set e. \<not> is_upper c)"
    using defaults_keys_normal by (simp only: list_all_iff) 
  thus ?thesis
    unfolding store_ok_def reset_extensions_store
    using defaults_keys_distinct by simp
qed

lemma store_ok_add: "store_ok s \<Longrightarrow> store_ok (snd (snd (add_extension e s)))"
  unfolding store_ok_def add_extension_def Let_def reset_oper_cache_def
  using normalized_no_dot[of e] normalized_no_upper[of _ e]
  by (simp split: if_splits) 

lemma store_ok_remove: "store_ok s \<Longrightarrow> store_ok (snd (snd (remove_extension e s)))"
proof (cases "find_pop e (file_extensions s) 0")
  case None
  assume "store_ok s"
  with None show ?thesis by (simp add: remove_extension_def reset_oper_cache_def store_ok_def)
next
  case (Some k)
  assume ok: "store_ok s"
  from find_pop_Some[OF Some] obtain pre x post where
    d: "file_extensions s = pre @ x # post" "k = length pre" by auto
  with Some have "file_extensions (snd (snd (remove_extension e s))) = pre @ post"
    by (simp add: remove_extension_def reset_oper_cache_def)
  with ok d(1) show ?thesis by (simp add: store_ok_def)
qed

lemma operator_exists_store:
  "file_extensions (snd (operator_exists h s ref refresh)) = file_extensions s"
  by (simp add: operator_exists_def Let_def split: option.splits list.splits)

lemma execute_state:
  "fst (snd (execute h s self)) = (if file_extensions s = [] then snd (reset_extensions s) else s)"
  by (simp add: execute_def Let_def split: prod.splits sum.splits)

lemma store_ok_edit:
  assumes "store_ok s" "i < length (file_extensions s)"
  shows "store_ok (s\<lparr>file_extensions :=
        (file_extensions s)[i := operator_code_update ((file_extensions s ! i)\<lparr>operator := v\<rparr>)]\<rparr>)"
proof -
  have "map extension ((file_extensions s)[i := operator_code_update ((file_extensions s ! i)\<lparr>operator := v\<rparr>)])
      = (map extension (file_extensions s))[i := extension (file_extensions s ! i)]"
    by (simp add: map_update ocu_extension)
  also have "\<dots> = map extension (file_extensions s)"
    using assms(2) by (simp add: list_update_same_conv)
  finally show ?thesis using assms(1) by (simp add: store_ok_def)
qed

lemma reachable_store_ok: "reachable s \<Longrightarrow> store_ok s"
proof (induction rule: reachable.induct)
  case initial
  show ?case by (simp add: store_ok_def)
next
  case (reset s)
  show ?case by (rule store_ok_reset)
next
  case (add s e)
  from add.IH show ?case by (rule store_ok_add)
next
  case (remove s e)
  from remove.IH show ?case by (rule store_ok_remove)
next
  case (lookup s h ref refresh)
  from lookup.IH show ?case by (simp add: store_ok_def operator_exists_store)
next
  case (import s h self)
  from import.IH show ?case by (simp add: execute_state store_ok_reset)
next
  case (edit s i v)
  from edit.IH edit.hyps(2) show ?case by (rule store_ok_edit)
qed


text \<open>
  Claim C4. In every reachable state the stored extensions are pairwise distinct, and
  \<^verbatim>\<open>add_extension\<close> called with an extension that is stored reports the error and
  returns \<open>CANCELLED\<close>; the collection is the one it found (the operator cache is
  emptied).
\<close>

theorem store_is_a_mapping:
  assumes "reachable s"
  shows "distinct (map extension (file_extensions s))
     \<and> (\<forall>e \<in> set (map extension (file_extensions s)).
           add_extension e s =
             (CANCELLED, [Report ERROR ''Extension already defined''], s\<lparr>oper_cache := []\<rparr>))"
proof (intro conjI ballI)
  from assms have ok: "store_ok s" by (rule reachable_store_ok)
  thus "distinct (map extension (file_extensions s))" by (simp add: store_ok_def)
  fix e assume e: "e \<in> set (map extension (file_extensions s))"
  from ok have "\<forall>e \<in> set (map extension (file_extensions s)).
           CHR ''.'' \<notin> set e \<and> (\<forall>c \<in> set e. \<not> is_upper c)"
    unfolding store_ok_def by (rule conjunct2)
  from bspec[OF this e] have "CHR ''.'' \<notin> set e" "\<forall>c \<in> set e. \<not> is_upper c"
    by (rule conjunct1, rule conjunct2)
  hence "lower (replace_dot e) = e" by (rule normalize_fixed)
  with e show "add_extension e s =
             (CANCELLED, [Report ERROR ''Extension already defined''], s\<lparr>oper_cache := []\<rparr>)"
    by (simp add: add_extension_def reset_oper_cache_def Let_def)
qed

theorem store_is_a_mapping_witness:
  "reachable \<lparr>file_extensions = [\<lparr>extension = ''obj'', operator = []\<rparr>], oper_cache = []\<rparr>
   \<and> add_extension ''obj'' \<lparr>file_extensions = [\<lparr>extension = ''obj'', operator = []\<rparr>], oper_cache = []\<rparr>
     = (CANCELLED, [Report ERROR ''Extension already defined''],
        \<lparr>file_extensions = [\<lparr>extension = ''obj'', operator = []\<rparr>], oper_cache = []\<rparr>)"
proof -
  let ?i = "\<lparr>file_extensions = [], oper_cache = []\<rparr>"
  let ?s = "\<lparr>file_extensions = [\<lparr>extension = ''obj'', operator = []\<rparr>], oper_cache = []\<rparr>"
  have n: "lower (replace_dot ''OBJ'') = ''obj''" by code_simp
  have "snd (snd (add_extension ''OBJ'' ?i)) = ?s"
    unfolding add_extension_def Let_def n by (simp add: reset_oper_cache_def)
  with reachable.add[OF reachable.initial, of "''OBJ''"] have r: "reachable ?s" by simp
  from store_is_a_mapping[OF r] have
    "add_extension ''obj'' ?s =
       (CANCELLED, [Report ERROR ''Extension already defined''], ?s\<lparr>oper_cache := []\<rparr>)"
    by simp
  with r show ?thesis by simp
qed


section \<open>Looking an operator up\<close>

lemma count_dot_zero: "count_list ref (CHR ''.'') = 0 \<longleftrightarrow> CHR ''.'' \<notin> set ref"
  by (induction ref) simp_all

lemma split_dot_pair:
  assumes "length (split_dot s) = 2"
  obtains a b where "split_dot s = [a, b]" "s = a @ ''.'' @ b"
    "CHR ''.'' \<notin> set a" "CHR ''.'' \<notin> set b"
proof -
  from assms obtain a b where e: "split_dot s = [a, b]"
    by (auto simp: length_Suc_conv eval_nat_numeral)
  have "s = join_dot (split_dot s)" by (simp add: join_split_dot)
  with e have s: "s = a @ ''.'' @ b" by simp
  have ab: "a \<in> set (split_dot s)" "b \<in> set (split_dot s)" using e by simp_all
  have "CHR ''.'' \<notin> set a" using ab(1) by (rule split_dot_parts_dotless)
  moreover have "CHR ''.'' \<notin> set b" using ab(2) by (rule split_dot_parts_dotless)
  ultimately have "CHR ''.'' \<notin> set a" "CHR ''.'' \<notin> set b" by simp_all
  with e s that show thesis by simp
qed

lemma operator_exists_refresh:
  "fst (operator_exists h s ref True) =
     (if CHR ''.'' \<notin> set ref then Inr False
      else (case split_dot ref of
              [base, oprs] \<Rightarrow> Inr (base \<in> set (ops_dir h) \<and> oprs \<in> set (ops_sub_dir h base))
            | _ \<Rightarrow> Inl ValueError))"
  by (simp add: operator_exists_def Let_def split: list.splits)


text \<open>
  Claim C6, as the code has it. \<^verbatim>\<open>operator_exists(ref)\<close> returns a boolean for every
  string with at most one dot: \<open>False\<close> when it has none, and with exactly one dot,
  \<open>ref = base.oprs\<close>, whether \<open>base\<close> is listed by the operator registry and \<open>oprs\<close>
  by that module. A string with two or more dots makes the unpacking of the split raise
  \<^verbatim>\<open>ValueError\<close>.
\<close>

theorem operator_exists_by_dots:
  "(CHR ''.'' \<notin> set ref \<longrightarrow> fst (operator_exists h s ref True) = Inr False)
   \<and> (count_list ref (CHR ''.'') = 1 \<longrightarrow>
        (\<exists>base oprs. ref = base @ ''.'' @ oprs \<and> CHR ''.'' \<notin> set base \<and> CHR ''.'' \<notin> set oprs
           \<and> fst (operator_exists h s ref True)
               = Inr (base \<in> set (ops_dir h) \<and> oprs \<in> set (ops_sub_dir h base))))
   \<and> (2 \<le> count_list ref (CHR ''.'') \<longrightarrow> fst (operator_exists h s ref True) = Inl ValueError)"
proof (intro conjI impI)
  assume "CHR ''.'' \<notin> set ref"
  thus "fst (operator_exists h s ref True) = Inr False" by (simp add: operator_exists_refresh)
next
  assume c: "count_list ref (CHR ''.'') = 1"
  hence "length (split_dot ref) = 2" by (simp add: length_split_dot)
  then obtain a b where e: "split_dot ref = [a, b]" and r: "ref = a @ ''.'' @ b"
    and n: "CHR ''.'' \<notin> set a" "CHR ''.'' \<notin> set b" by (rule split_dot_pair)
  from c have "count_list ref (CHR ''.'') \<noteq> 0" by simp
  hence d: "CHR ''.'' \<in> set ref" by (simp add: count_dot_zero)
  have "fst (operator_exists h s ref True) = Inr (a \<in> set (ops_dir h) \<and> b \<in> set (ops_sub_dir h a))"
    using d e by (simp add: operator_exists_refresh)
  with r n show "\<exists>base oprs. ref = base @ ''.'' @ oprs \<and> CHR ''.'' \<notin> set base \<and> CHR ''.'' \<notin> set oprs
           \<and> fst (operator_exists h s ref True)
               = Inr (base \<in> set (ops_dir h) \<and> oprs \<in> set (ops_sub_dir h base))"
    by (intro exI[of _ a] exI[of _ b] conjI)
next
  assume c: "2 \<le> count_list ref (CHR ''.'')"
  hence l: "3 \<le> length (split_dot ref)" by (simp add: length_split_dot)
  from c have "count_list ref (CHR ''.'') \<noteq> 0" by simp
  hence d: "CHR ''.'' \<in> set ref" by (simp add: count_dot_zero)
  from l have "(case split_dot ref of
              [base, oprs] \<Rightarrow> Inr (base \<in> set (ops_dir h) \<and> oprs \<in> set (ops_sub_dir h base))
            | _ \<Rightarrow> Inl ValueError) = Inl ValueError"
    by (auto split: list.splits)
  with d show "fst (operator_exists h s ref True) = Inl ValueError"
    by (simp add: operator_exists_refresh)
qed

theorem operator_exists_by_dots_witness:
  "count_list ''import_scene.obj'' (CHR ''.'') = 1
   \<and> fst (operator_exists (sample_host [(''import_scene.obj'', [''filepath''])])
            \<lparr>file_extensions = [], oper_cache = []\<rparr> ''import_scene.obj'' True) = Inr True
   \<and> fst (operator_exists (sample_host [(''import_scene.obj'', [''filepath''])])
            \<lparr>file_extensions = [], oper_cache = []\<rparr> ''import_scene'' True) = Inr False
   \<and> fst (operator_exists (sample_host [(''import_scene.obj'', [''filepath''])])
            \<lparr>file_extensions = [], oper_cache = []\<rparr> ''bpy.ops.import_scene.obj'' True)
       = Inl ValueError"
proof -
  let ?h = "sample_host [(''import_scene.obj'', [''filepath''])]"
  let ?s = "\<lparr>file_extensions = [], oper_cache = []\<rparr>"
  let ?r = "fst (operator_exists ?h ?s ''import_scene.obj'' True)"
  have c: "count_list ''import_scene.obj'' (CHR ''.'') = 1" by simp
  have sp: "split_dot ''import_scene.obj'' = [''import_scene'', ''obj'']" by simp
  have reg: "''import_scene'' \<in> set (ops_dir ?h) \<and> ''obj'' \<in> set (ops_sub_dir ?h ''import_scene'')"
    by (simp add: sample_host_def)
  note T = operator_exists_by_dots[of "''import_scene.obj''" ?h ?s]
  from T have "count_list ''import_scene.obj'' (CHR ''.'') = 1 \<longrightarrow>
        (\<exists>base oprs. ''import_scene.obj'' = base @ ''.'' @ oprs
           \<and> CHR ''.'' \<notin> set base \<and> CHR ''.'' \<notin> set oprs
           \<and> ?r = Inr (base \<in> set (ops_dir ?h) \<and> oprs \<in> set (ops_sub_dir ?h base)))"
    by (rule conjunct1[OF conjunct2])
  from this c have "\<exists>base oprs. ''import_scene.obj'' = base @ ''.'' @ oprs
           \<and> CHR ''.'' \<notin> set base \<and> CHR ''.'' \<notin> set oprs
           \<and> ?r = Inr (base \<in> set (ops_dir ?h) \<and> oprs \<in> set (ops_sub_dir ?h base))"
    by (rule mp)
  then obtain base oprs where b1: "''import_scene.obj'' = base @ ''.'' @ oprs"
    and b2: "CHR ''.'' \<notin> set base" and b3: "CHR ''.'' \<notin> set oprs"
    and r: "?r = Inr (base \<in> set (ops_dir ?h) \<and> oprs \<in> set (ops_sub_dir ?h base))"
    by (elim exE conjE)
  have "split_dot (base @ ''.'' @ oprs) = [base, oprs]"
    using split_dot_two[OF b2 b3] by simp
  hence "split_dot ''import_scene.obj'' = [base, oprs]" by (simp only: b1[symmetric])
  hence "[''import_scene'', ''obj''] = [base, oprs]" by (simp only: sp)
  hence "base = ''import_scene''" "oprs = ''obj''" by simp_all
  with r reg have one: "?r = Inr True" by simp
  have "CHR ''.'' \<notin> set ''import_scene''" by simp
  with operator_exists_by_dots[of "''import_scene''" ?h ?s]
  have none: "fst (operator_exists ?h ?s ''import_scene'' True) = Inr False"
    by (elim conjE) (erule mp)
  have "2 \<le> count_list ''bpy.ops.import_scene.obj'' (CHR ''.'')" by simp
  with operator_exists_by_dots[of "''bpy.ops.import_scene.obj''" ?h ?s]
  have many: "fst (operator_exists ?h ?s ''bpy.ops.import_scene.obj'' True) = Inl ValueError"
    by (elim conjE) (erule mp)
  from c one none many show ?thesis by (intro conjI)
qed


text \<open>
  The claim that the lookup never raises fails at a string with two dots. The
  preferences panel, the one caller, tests \<^verbatim>\<open>len(ext.operator.split(".")) > 2\<close> and
  skips the lookup for such a string.
\<close>

theorem operator_exists_raises:
  "fst (operator_exists (sample_host []) \<lparr>file_extensions = [], oper_cache = []\<rparr> ''a.b.c'' True)
     = Inl ValueError"
  by code_simp


section \<open>The keyword arguments of a dispatch\<close>

lemma endswith_drop: "endswith s (drop k s)"
proof -
  have "s = take k s @ drop k s" by simp
  thus ?thesis unfolding endswith_iff by (rule exI)
qed

lemma endswith_nil: "endswith s []"
  by (simp add: endswith_def)

lemma ext_of_suffix: "endswith name (ext_of name)"
proof (cases "snd (splitext name) = []")
  case True
  thus ?thesis by (simp add: ext_of_def endswith_nil)
next
  case False
  then obtain k where "snd (splitext name) = drop k name"
    by (auto simp: splitext_def Let_def split: if_splits)
  hence "ext_of name = drop (Suc k) name" by (simp add: ext_of_def)
  thus ?thesis by (simp only: endswith_drop)
qed


lemma filter_endswith:
  "filter (\<lambda>name. endswith name ext) names = filter (\<lambda>name. \<exists>u. name = u @ ext) names"
  by (rule filter_cong[OF refl]) (simp only: endswith_iff)

lemma selected_matches:
  assumes "ext \<in> set (map ext_of names)"
  shows "filter (\<lambda>name. endswith name ext) names \<noteq> []"
proof -
  from assms obtain name where n: "name \<in> set names" "ext = ext_of name" by (auto simp: image_iff)
  have "endswith name ext" unfolding n(2) by (rule ext_of_suffix)
  with n(1) have "name \<in> set (filter (\<lambda>name. endswith name ext) names)" by simp
  thus ?thesis by (rule_tac notI) simp
qed

lemma pair_if: "(if b then (x, z) else (y, z)) = (if b then x else y, z)"
  by simp


text \<open>
  Claim C3. Take an extension of the selection whose association names an operator
  \<open>base.oprs\<close>, and let \<open>f\<close> be the first selected name that ends with the extension.
  \<^verbatim>\<open>import_single\<close> then calls that operator once, with \<^verbatim>\<open>'INVOKE_DEFAULT'\<close> and
  keyword arguments chosen from the properties the operator exposes: with
  \<^verbatim>\<open>filepath\<close>, \<^verbatim>\<open>directory\<close> and \<^verbatim>\<open>files\<close> all three (the path joined from the
  directory and \<open>f\<close>, the directory, one \<^verbatim>\<open>{"name": ...}\<close> entry per matching name);
  with \<^verbatim>\<open>filepath\<close> and \<^verbatim>\<open>directory\<close> but no \<^verbatim>\<open>files\<close>, the file path \<open>f\<close> and the
  directory; with \<^verbatim>\<open>filepath\<close> but no \<^verbatim>\<open>directory\<close>, the joined path only; with
  \<^verbatim>\<open>files\<close> and \<^verbatim>\<open>directory\<close> but no \<^verbatim>\<open>filepath\<close>, the entries and the directory;
  and none otherwise. The result is an error exactly when the host's call raises.
\<close>

theorem import_single_keywords:
  assumes assoc: "find (\<lambda>pref_set. extension pref_set = ext) (file_extensions s) = Some pref_set"
      and name: "operator pref_set = base @ ''.'' @ oprs"
                "CHR ''.'' \<notin> set base" "CHR ''.'' \<notin> set oprs"
      and sel: "ext \<in> set (map ext_of names)"
  shows "\<exists>f rest.
     filter (\<lambda>name. \<exists>u. name = u @ ext) names = f # rest
     \<and> (let props = operator_properties_last h (base @ ''.'' @ oprs);
             bfilepath = (''filepath'' \<in> set props);
             bdirectory = (''directory'' \<in> set props);
             bfiles = (''files'' \<in> set props);
             entries = DictsV (map (\<lambda>name. [(''name'', name)]) (f # rest));
             kw = (if bfilepath \<and> bdirectory \<and> bfiles
                   then [(''filepath'', StrV (path_join directory f)),
                         (''directory'', StrV directory), (''files'', entries)]
                   else if bfilepath \<and> bdirectory \<and> \<not> bfiles
                   then [(''filepath'', StrV f), (''directory'', StrV directory)]
                   else if bfilepath \<and> \<not> bdirectory
                   then [(''filepath'', StrV (path_join directory f))]
                   else if bfiles \<and> bdirectory
                   then [(''files'', entries), (''directory'', StrV directory)]
                   else []);
             c = \<lparr>op_base = base, op_name = oprs, args = [''INVOKE_DEFAULT''], kwargs = kw\<rparr>
         in import_single h s directory names ext tr
              = (if op_raises h tr c then Inl OperatorError else Inr (), tr @ [Invoke c]))"
proof -
  from selected_matches[OF sel] obtain f rest where
    fl: "filter (\<lambda>name. endswith name ext) names = f # rest"
    by (cases "filter (\<lambda>name. endswith name ext) names") simp_all
  hence fl': "filter (\<lambda>name. \<exists>u. name = u @ ext) names = f # rest"
    by (simp only: filter_endswith)
  have sp: "split_dot (base @ ''.'' @ oprs) = [base, oprs]"
    using split_dot_two[OF name(2,3)] by simp
  have "let props = operator_properties_last h (base @ ''.'' @ oprs);
             bfilepath = (''filepath'' \<in> set props);
             bdirectory = (''directory'' \<in> set props);
             bfiles = (''files'' \<in> set props);
             entries = DictsV (map (\<lambda>name. [(''name'', name)]) (f # rest));
             kw = (if bfilepath \<and> bdirectory \<and> bfiles
                   then [(''filepath'', StrV (path_join directory f)),
                         (''directory'', StrV directory), (''files'', entries)]
                   else if bfilepath \<and> bdirectory \<and> \<not> bfiles
                   then [(''filepath'', StrV f), (''directory'', StrV directory)]
                   else if bfilepath \<and> \<not> bdirectory
                   then [(''filepath'', StrV (path_join directory f))]
                   else if bfiles \<and> bdirectory
                   then [(''files'', entries), (''directory'', StrV directory)]
                   else []);
             c = \<lparr>op_base = base, op_name = oprs, args = [''INVOKE_DEFAULT''], kwargs = kw\<rparr>
         in import_single h s directory names ext tr
              = (if op_raises h tr c then Inl OperatorError else Inr (), tr @ [Invoke c])"
    unfolding import_single_def Let_def assoc fl option.case name(1) sp
    by (cases "''filepath'' \<in> set (operator_properties_last h (base @ ''.'' @ oprs))";
        cases "''directory'' \<in> set (operator_properties_last h (base @ ''.'' @ oprs))";
        cases "''files'' \<in> set (operator_properties_last h (base @ ''.'' @ oprs))")
       (simp_all only: if_True if_False simp_thms list.case sum.case pair_if)
  with fl' show ?thesis by (intro exI[of _ f] exI[of _ rest] conjI)
qed

theorem import_single_keywords_witness:
  "import_single (sample_host [(''import_mesh.stl'', [''filepath'', ''directory'', ''files''])])
      \<lparr>file_extensions = [\<lparr>extension = ''stl'', operator = ''import_mesh.stl''\<rparr>], oper_cache = []\<rparr>
      ''/tmp'' [''a.stl'', ''b.stl''] ''stl'' []
    = (Inr (),
       [Invoke \<lparr>op_base = ''import_mesh'', op_name = ''stl'', args = [''INVOKE_DEFAULT''],
                kwargs = [(''filepath'', StrV ''/tmp/a.stl''), (''directory'', StrV ''/tmp''),
                          (''files'', DictsV [[(''name'', ''a.stl'')], [(''name'', ''b.stl'')]])]\<rparr>])"
proof -
  let ?h = "sample_host [(''import_mesh.stl'', [''filepath'', ''directory'', ''files''])]"
  let ?p = "\<lparr>extension = ''stl'', operator = ''import_mesh.stl''\<rparr>"
  let ?s = "\<lparr>file_extensions = [?p], oper_cache = []\<rparr>"
  let ?names = "[''a.stl'', ''b.stl'']"
  have assoc: "find (\<lambda>pref_set. extension pref_set = ''stl'') (file_extensions ?s) = Some ?p"
    by simp
  have name: "operator ?p = ''import_mesh'' @ ''.'' @ ''stl''" by simp
  have n1: "CHR ''.'' \<notin> set ''import_mesh''" and n2: "CHR ''.'' \<notin> set ''stl''" by simp_all
  have ex: "map ext_of ?names = [''stl'', ''stl'']" by code_simp
  have sel: "''stl'' \<in> set (map ext_of ?names)" unfolding ex by simp
  have fe: "filter (\<lambda>name. endswith name ''stl'') ?names = ?names" by code_simp
  have fu: "filter (\<lambda>name. \<exists>u. name = u @ ''stl'') ?names = ?names"
    using fe by (simp only: filter_endswith)
  have pj: "path_join ''/tmp'' ''a.stl'' = ''/tmp/a.stl''" by code_simp
  have pr: "operator_properties_last ?h (''import_mesh'' @ ''.'' @ ''stl'')
      = [''filepath'', ''directory'', ''files'']"
    by (simp add: sample_host_def)
  have nr: "\<not> op_raises ?h tr c" for tr c by (simp add: sample_host_def)
  from import_single_keywords [OF assoc name n1 n2 sel, of ?h "''/tmp''" "[]"]
  obtain f rest where
    fr: "filter (\<lambda>name. \<exists>u. name = u @ ''stl'') ?names = f # rest"
    and run: "let props = operator_properties_last ?h (''import_mesh'' @ ''.'' @ ''stl'');
             bfilepath = (''filepath'' \<in> set props);
             bdirectory = (''directory'' \<in> set props);
             bfiles = (''files'' \<in> set props);
             entries = DictsV (map (\<lambda>name. [(''name'', name)]) (f # rest));
             kw = (if bfilepath \<and> bdirectory \<and> bfiles
                   then [(''filepath'', StrV (path_join ''/tmp'' f)),
                         (''directory'', StrV ''/tmp''), (''files'', entries)]
                   else if bfilepath \<and> bdirectory \<and> \<not> bfiles
                   then [(''filepath'', StrV f), (''directory'', StrV ''/tmp'')]
                   else if bfilepath \<and> \<not> bdirectory
                   then [(''filepath'', StrV (path_join ''/tmp'' f))]
                   else if bfiles \<and> bdirectory
                   then [(''files'', entries), (''directory'', StrV ''/tmp'')]
                   else []);
             c = \<lparr>op_base = ''import_mesh'', op_name = ''stl'',
                   args = [''INVOKE_DEFAULT''], kwargs = kw\<rparr>
         in import_single ?h ?s ''/tmp'' ?names ''stl'' []
              = (if op_raises ?h [] c then Inl OperatorError else Inr (), [] @ [Invoke c])"
    by (elim exE conjE)
  from fr have "?names = f # rest" by (simp only: fu)
  hence f: "f = ''a.stl''" and r: "rest = [''b.stl'']" by simp_all
  from run show ?thesis
    unfolding Let_def pr f r pj by (simp add: nr)
qed


end
